theory Spec2Isabelle
  imports Main "HOL-Library.Word"
begin

section \<open>Shared Go notions\<close>

text \<open>
  A Go \<^verbatim>\<open>error\<close> value is modelled by the datatype below and a result of type
  \<^verbatim>\<open>error\<close> by \<open>error option\<close> (\<open>None\<close> is \<^verbatim>\<open>nil\<close>).  The three backends
  only ever inspect an error in one place (the AWS error code in the SSM
  \<^verbatim>\<open>GetValues\<close>), so all other errors are opaque messages.
\<close>

record awserr =
  Code :: string
  Message :: string

datatype error =
    ErrNoNode
  | TransportError string
  | DecodeError string
  | AwsError awserr

text \<open>A run-time panic of the Go program: the call does not return at all.\<close>

datatype panic = TypeAssertion | NilDereference | IndexOutOfRange

text \<open>\<^verbatim>\<open>map[string]string\<close>, mutated in place by the walkers and returned updated here.\<close>

type_synonym vars = "string \<rightharpoonup> string"

definition HasPrefix :: "string \<Rightarrow> string \<Rightarrow> bool" where
  "HasPrefix s p = (take (length p) s = p)"

text \<open>\<^verbatim>\<open>strconv.Itoa\<close>: decimal digits, most significant first, with a sign.\<close>

fun digits :: "nat \<Rightarrow> string" where
  "digits n =
     (if n < 10 then [''0123456789'' ! n]
      else digits (n div 10) @ [''0123456789'' ! (n mod 10)])"

declare digits.simps [simp del]

definition Itoa :: "int \<Rightarrow> string" where
  "Itoa i = (if i < 0 then CHR ''-'' # digits (nat (- i)) else digits (nat i))"

definition FormatBool :: "bool \<Rightarrow> string" where
  "FormatBool b = (if b then ''true'' else ''false'')"

text \<open>\<^verbatim>\<open>strings.Join([]string{a, b}, sep)\<close>.\<close>

definition Join2 :: "string \<Rightarrow> string \<Rightarrow> string \<Rightarrow> string" where
  "Join2 a b sep = a @ sep @ b"

section \<open>Package rancher: the metadata backend\<close>

subsection \<open>Decoded JSON\<close>

text \<open>
  What \<^verbatim>\<open>json.Unmarshal\<close> stores in an \<^verbatim>\<open>interface{}\<close>.  The entries of an object are
  listed in the order in which the \<^verbatim>\<open>range\<close> over the Go map happens to visit them;
  their keys are pairwise distinct in a Go map.  \<open>JOther ty\<close> is a value of any
  dynamic type \<open>ty\<close> that the type switch of \<^verbatim>\<open>treeWalk\<close> has no arm for.  Numbers are
  \<^verbatim>\<open>float64\<close> values; their type \<open>'n\<close> and the library formatter
  \<^verbatim>\<open>strconv.FormatFloat(_, 'f', -1, 64)\<close> are parameters of the model.
\<close>

datatype 'n jvalue =
    JObject "(string \<times> 'n jvalue) list"
  | JArray "'n jvalue list"
  | JBool bool
  | JString string
  | JNumber 'n
  | JNull
  | JOther string

text \<open>The walker's state: the map being filled and the lines written with \<^verbatim>\<open>log.Printf\<close>.\<close>

type_synonym wstate = "vars \<times> string list"

text \<open>
  The path segment of the array element \<open>item\<close> at index \<open>i\<close> (lines 71 to 76):
  the index in decimal, replaced by \<^verbatim>\<open>name.(string)\<close> when the element is an object with
  a \<^verbatim>\<open>"name"\<close> entry.  The type assertion has no comma-ok form, so it panics on a name
  that is not a string.
\<close>

fun item_idx :: "int \<Rightarrow> 'n jvalue \<Rightarrow> panic + string" where
  "item_idx i (JObject kvs) =
     (case map_of kvs ''name'' of
        None \<Rightarrow> Inr (Itoa i)
      | Some (JString s) \<Rightarrow> Inr s
      | Some _ \<Rightarrow> Inl TypeAssertion)"
| "item_idx i _ = Inr (Itoa i)"

text \<open>
  \<^verbatim>\<open>treeWalk\<close> with its two \<^verbatim>\<open>range\<close> loops.  The Go function's \<^verbatim>\<open>error\<close> result is the
  constant \<^verbatim>\<open>nil\<close> (line 91), which is why no error is threaded through.
\<close>

fun treeWalk :: "('n \<Rightarrow> string) \<Rightarrow> string \<Rightarrow> 'n jvalue \<Rightarrow> wstate \<Rightarrow> panic + wstate"
  and treeWalk_entries ::
    "('n \<Rightarrow> string) \<Rightarrow> string \<Rightarrow> (string \<times> 'n jvalue) list \<Rightarrow> wstate \<Rightarrow> panic + wstate"
  and treeWalk_items ::
    "('n \<Rightarrow> string) \<Rightarrow> string \<Rightarrow> int \<Rightarrow> 'n jvalue list \<Rightarrow> wstate \<Rightarrow> panic + wstate"
where
  "treeWalk fmt root (JObject kvs) st = treeWalk_entries fmt root kvs st"
| "treeWalk fmt root (JArray items) st = treeWalk_items fmt root 0 items st"
| "treeWalk fmt root (JBool b) st = Inr ((fst st)(root \<mapsto> FormatBool b), snd st)"
| "treeWalk fmt root (JString s) st = Inr ((fst st)(root \<mapsto> s), snd st)"
| "treeWalk fmt root (JNumber x) st = Inr ((fst st)(root \<mapsto> fmt x), snd st)"
| "treeWalk fmt root JNull st = Inr ((fst st)(root \<mapsto> ''null''), snd st)"
| "treeWalk fmt root (JOther ty) st = Inr (fst st, snd st @ [''Unknown type: '' @ ty])"
| "treeWalk_entries fmt root [] st = Inr st"
| "treeWalk_entries fmt root (kv # kvs) st =
     (case treeWalk fmt (Join2 root (fst kv) ''/'') (snd kv) st of
        Inl p \<Rightarrow> Inl p
      | Inr st' \<Rightarrow> treeWalk_entries fmt root kvs st')"
| "treeWalk_items fmt root i [] st = Inr st"
| "treeWalk_items fmt root i (item # items) st =
     (case item_idx i item of
        Inl p \<Rightarrow> Inl p
      | Inr idx \<Rightarrow>
          (case treeWalk fmt (Join2 root idx ''/'') item st of
             Inl p \<Rightarrow> Inl p
           | Inr st' \<Rightarrow> treeWalk_items fmt root (i + 1) items st'))"

subsection \<open>The flattening rules as the specification words them\<close>

text \<open>
  The list of (path, rendered value) pairs in walk order.  The specification does not
  say which segment an element with a non-string name gets; the index is used here,
  and the comparison with \<open>treeWalk\<close> below excludes such elements.
\<close>

fun segment_spec :: "int \<Rightarrow> 'n jvalue \<Rightarrow> string" where
  "segment_spec i (JObject kvs) =
     (case map_of kvs ''name'' of Some (JString s) \<Rightarrow> s | _ \<Rightarrow> Itoa i)"
| "segment_spec i _ = Itoa i"

fun flatten_spec :: "('n \<Rightarrow> string) \<Rightarrow> string \<Rightarrow> 'n jvalue \<Rightarrow> (string \<times> string) list"
  and flatten_entries ::
    "('n \<Rightarrow> string) \<Rightarrow> string \<Rightarrow> (string \<times> 'n jvalue) list \<Rightarrow> (string \<times> string) list"
  and flatten_items ::
    "('n \<Rightarrow> string) \<Rightarrow> string \<Rightarrow> int \<Rightarrow> 'n jvalue list \<Rightarrow> (string \<times> string) list"
where
  "flatten_spec fmt root (JObject kvs) = flatten_entries fmt root kvs"
| "flatten_spec fmt root (JArray items) = flatten_items fmt root 0 items"
| "flatten_spec fmt root (JBool b) = [(root, if b then ''true'' else ''false'')]"
| "flatten_spec fmt root (JString s) = [(root, s)]"
| "flatten_spec fmt root (JNumber x) = [(root, fmt x)]"
| "flatten_spec fmt root JNull = [(root, ''null'')]"
| "flatten_spec fmt root (JOther ty) = []"
| "flatten_entries fmt root [] = []"
| "flatten_entries fmt root (kv # kvs) =
     flatten_spec fmt (root @ ''/'' @ fst kv) (snd kv) @ flatten_entries fmt root kvs"
| "flatten_items fmt root i [] = []"
| "flatten_items fmt root i (item # items) =
     flatten_spec fmt (root @ ''/'' @ segment_spec i item) item
       @ flatten_items fmt root (i + 1) items"

text \<open>The diagnostics of a walk: one line per value of unrecognised type, in walk order.\<close>

fun diagnostics :: "'n jvalue \<Rightarrow> string list" where
  "diagnostics (JObject kvs) = concat (map (\<lambda>kv. diagnostics (snd kv)) kvs)"
| "diagnostics (JArray items) = concat (map diagnostics items)"
| "diagnostics (JOther ty) = [''Unknown type: '' @ ty]"
| "diagnostics _ = []"

text \<open>Every \<^verbatim>\<open>"name"\<close> entry of an object that is an array element is a string.\<close>

fun name_ok :: "'n jvalue \<Rightarrow> bool" where
  "name_ok (JObject kvs) =
     (case map_of kvs ''name'' of None \<Rightarrow> True | Some (JString s) \<Rightarrow> True | Some _ \<Rightarrow> False)"
| "name_ok _ = True"

fun names_ok :: "'n jvalue \<Rightarrow> bool" where
  "names_ok (JObject kvs) = list_all (\<lambda>kv. names_ok (snd kv)) kvs"
| "names_ok (JArray items) = list_all (\<lambda>item. name_ok item \<and> names_ok item) items"
| "names_ok _ = True"

text \<open>Writing a list of entries into a map, later entries overwriting earlier ones.\<close>

definition store_all :: "(string \<times> string) list \<Rightarrow> vars \<Rightarrow> vars" where
  "store_all es m = fold (\<lambda>e m'. m'(fst e \<mapsto> snd e)) es m"

text \<open>The example of the specification, numbers being integers printed in decimal.\<close>

definition regions_example :: "int jvalue" where
  "regions_example =
     JArray [JObject [(''name'', JString ''eu''), (''val'', JNumber 1)],
             JObject [(''name'', JString ''us''), (''val'', JNumber 2)]]"

subsection \<open>The client\<close>

text \<open>
  The HTTP transport is an opaque service: \<open>httpDo c n u\<close> is what the \<open>n\<close>-th request
  made through the client gives for the URL \<open>u\<close>, either the error of
  \<^verbatim>\<open>httpClient.Do\<close> or the result of \<^verbatim>\<open>ioutil.ReadAll\<close> on the body.
\<close>

record client =
  url :: string
  httpDo :: "nat \<Rightarrow> string \<Rightarrow> error + (string \<times> error option)"

definition makeMetaDataRequest :: "client \<Rightarrow> nat \<Rightarrow> string \<Rightarrow> error + string" where
  "makeMetaDataRequest c n path =
     (case httpDo c n (url c @ path) of
        Inl e \<Rightarrow> Inl e
      | Inr (body, None) \<Rightarrow> Inr body
      | Inr (body, Some e) \<Rightarrow> Inl e)"

text \<open>
  \<^verbatim>\<open>GetValues\<close>, the loop over the keys started from the state \<open>st\<close>; \<open>n\<close> counts the
  requests made so far and \<open>unmarshal\<close> is \<^verbatim>\<open>json.Unmarshal\<close>.
\<close>

fun rancher_GetValues_from ::
  "client \<Rightarrow> (string \<Rightarrow> error + 'n jvalue) \<Rightarrow> ('n \<Rightarrow> string) \<Rightarrow> nat \<Rightarrow> string list \<Rightarrow> wstate
     \<Rightarrow> panic + (wstate \<times> error option)"
where
  "rancher_GetValues_from c unmarshal fmt n [] st = Inr (st, None)"
| "rancher_GetValues_from c unmarshal fmt n (key # keys) st =
     (case makeMetaDataRequest c n key of
        Inl e \<Rightarrow> Inr (st, Some e)
      | Inr body \<Rightarrow>
          (case unmarshal body of
             Inl e \<Rightarrow> Inr (st, Some e)
           | Inr jsonResponse \<Rightarrow>
               (case treeWalk fmt key jsonResponse st of
                  Inl p \<Rightarrow> Inl p
                | Inr st' \<Rightarrow> rancher_GetValues_from c unmarshal fmt (n + 1) keys st')))"

definition rancher_GetValues ::
  "client \<Rightarrow> (string \<Rightarrow> error + 'n jvalue) \<Rightarrow> ('n \<Rightarrow> string) \<Rightarrow> nat \<Rightarrow> string list \<Rightarrow> string list
     \<Rightarrow> panic + (wstate \<times> error option)"
where
  "rancher_GetValues c unmarshal fmt n keys lg =
     rancher_GetValues_from c unmarshal fmt n keys (Map.empty, lg)"

text \<open>
  \<^verbatim>\<open>testConnection\<close>.  Durations are \<^verbatim>\<open>time.Duration\<close> values, nanoseconds in an
  \<^verbatim>\<open>int64\<close>; the largest one computed is 32 seconds, far from overflow.  The loop
  \<^verbatim>\<open>for i := 1s; i < maxTime; i *= 2\<close> is run with fuel; the result carries the error
  returned and the list of the \<^verbatim>\<open>time.Sleep\<close> calls made, in order.
\<close>

definition Second :: int where
  "Second = 1000000000"

definition maxTime :: int where
  "maxTime = 20 * Second"

fun testConnection_loop ::
  "nat \<Rightarrow> client \<Rightarrow> nat \<Rightarrow> int \<Rightarrow> error option \<Rightarrow> int list \<Rightarrow> (error option \<times> int list) option"
where
  "testConnection_loop 0 c n i err slept = None"
| "testConnection_loop (Suc fuel) c n i err slept =
     (if i < maxTime then
        (case makeMetaDataRequest c n ''/'' of
           Inl e \<Rightarrow> testConnection_loop fuel c (n + 1) (i * 2) (Some e) (slept @ [i])
         | Inr body \<Rightarrow> Some (None, slept))
      else Some (err, slept))"

definition testConnection :: "nat \<Rightarrow> client \<Rightarrow> nat \<Rightarrow> (error option \<times> int list) option" where
  "testConnection fuel c n = testConnection_loop fuel c n (1 * Second) None []"

text \<open>\<^verbatim>\<open>WatchPrefix\<close> of this backend: cursors are \<^verbatim>\<open>uint64\<close> and there is no stop channel.\<close>

definition rancher_WatchPrefix :: "string \<Rightarrow> string list \<Rightarrow> 64 word \<Rightarrow> 64 word \<times> error option" where
  "rancher_WatchPrefix prefix keys waitIndex = (0, None)"

text \<open>
  The outcome of the \<open>j\<close>-th probe of a bootstrap started at request number \<open>n\<close>, and
  the backoff delays slept after \<open>k\<close> failed probes: 1, 2, 4, ... seconds.
\<close>

definition probe :: "client \<Rightarrow> nat \<Rightarrow> nat \<Rightarrow> error + string" where
  "probe c n j = makeMetaDataRequest c (n + j) ''/''"

definition backoffs :: "nat \<Rightarrow> int list" where
  "backoffs k = map (\<lambda>j. 2 ^ j * Second) [0..<k]"

text \<open>
  Two endpoints to run the bootstrap on: one that refuses the first two requests and
  then answers, and one that refuses every request, each time with a different error.
\<close>

definition flaky_endpoint :: client where
  "flaky_endpoint =
     \<lparr>url = ''http://rancher-metadata'',
      httpDo = (\<lambda>n u. if n < 2 then Inl (TransportError ''connection refused'')
                       else Inr (''{}'', None))\<rparr>"

definition dead_endpoint :: client where
  "dead_endpoint =
     \<lparr>url = ''http://rancher-metadata'',
      httpDo = (\<lambda>n u. Inl (TransportError (''refused, attempt '' @ Itoa (int n))))\<rparr>"

text \<open>A payload with a nested array, a value of unrecognised type and a null.\<close>

definition mixed_example :: "int jvalue" where
  "mixed_example =
     JObject [(''a'', JArray [JBool True, JOther ''chan'', JObject [(''n'', JNumber 7)]]),
              (''b'', JNull)]"

section \<open>Package ssm: the parameter store with its event stream\<close>

subsection \<open>GetValues\<close>

text \<open>
  The two SDK calls the backend makes.  \<open>GetParametersByPathPages c p\<close> gives the pages
  of (name, value) parameters handed to the callback, which asks for the next page
  until the last one, and the error of the call, which the source discards.
  \<open>GetParameter c n\<close> gives one (name, value) parameter or an error; the SDK reports
  every failure as an \<^verbatim>\<open>awserr.Error\<close>, so the source's assertion
  \<^verbatim>\<open>err.(awserr.Error)\<close> meets no other kind of error.
\<close>

record ssm_api =
  GetParametersByPathPages :: "string \<Rightarrow> (string \<times> string) list list \<times> awserr option"
  GetParameter :: "string \<Rightarrow> awserr + (string \<times> string)"

definition ErrCodeParameterNotFound :: string where
  "ErrCodeParameterNotFound = ''ParameterNotFound''"

text \<open>
  \<^verbatim>\<open>getParametersWithPrefix\<close>: the error returned is the local \<^verbatim>\<open>err\<close>, declared
  and never assigned, hence nil.
\<close>

definition getParametersWithPrefix :: "ssm_api \<Rightarrow> string \<Rightarrow> vars \<times> error option" where
  "getParametersWithPrefix c prefix =
     (store_all (concat (fst (GetParametersByPathPages c prefix))) Map.empty, None)"

definition getParameter :: "ssm_api \<Rightarrow> string \<Rightarrow> vars \<times> awserr option" where
  "getParameter c name =
     (case GetParameter c name of
        Inl e \<Rightarrow> (Map.empty, Some e)
      | Inr p \<Rightarrow> ([fst p \<mapsto> snd p], None))"

text \<open>
  The loop of \<^verbatim>\<open>GetValues\<close> over the keys, started from the map \<open>vars\<close>;
  \<^verbatim>\<open>len(resp) == 0\<close> is \<open>resp = Map.empty\<close> and the final \<^verbatim>\<open>range\<close> over \<open>resp\<close>
  is \<open>vars ++ resp\<close>.
\<close>

fun ssm_GetValues_from :: "ssm_api \<Rightarrow> string list \<Rightarrow> vars \<Rightarrow> vars \<times> error option" where
  "ssm_GetValues_from c [] vars = (vars, None)"
| "ssm_GetValues_from c (key # keys) vars =
     (case getParametersWithPrefix c key of
        (resp, Some e) \<Rightarrow> (vars, Some e)
      | (resp, None) \<Rightarrow>
          if resp = Map.empty then
            (case getParameter c key of
               (resp', Some e) \<Rightarrow>
                 if Code e \<noteq> ErrCodeParameterNotFound then (vars, Some (AwsError e))
                 else ssm_GetValues_from c keys (vars ++ resp')
             | (resp', None) \<Rightarrow> ssm_GetValues_from c keys (vars ++ resp'))
          else ssm_GetValues_from c keys (vars ++ resp))"

definition ssm_GetValues :: "ssm_api \<Rightarrow> string list \<Rightarrow> vars \<times> error option" where
  "ssm_GetValues c keys = ssm_GetValues_from c keys Map.empty"

text \<open>
  A parameter store to run \<open>ssm_GetValues\<close> on: two parameters under /app, delivered
  in two pages, one parameter /token that only the exact fetch finds, one parameter
  /locked that may not be read, and nothing else.
\<close>

definition param_store :: ssm_api where
  "param_store =
     \<lparr>GetParametersByPathPages =
        (\<lambda>p. if p = ''/app''
             then ([[(''/app/db/host'', ''x'')], [(''/app/db/port'', ''5432'')]], None)
             else ([], None)),
      GetParameter =
        (\<lambda>n. if n = ''/token'' then Inr (''/token'', ''s3cr3t'')
             else if n = ''/locked''
               then Inl \<lparr>Code = ''AccessDeniedException'', Message = ''denied''\<rparr>
             else Inl \<lparr>Code = ''ParameterNotFound'', Message = ''no such parameter''\<rparr>)\<rparr>"

subsection \<open>WatchPrefix\<close>

text \<open>
  The three Kinesis calls.  \<open>DescribeStream k s\<close> gives the shard identifiers of the
  stream \<open>s\<close>; \<open>GetShardIterator k shard s ty\<close> gives an iterator; \<open>GetRecords k it\<close>
  gives the data of the records at the iterator and \<^verbatim>\<open>NextShardIterator\<close>, a pointer
  that is nil once the shard is closed.  The iterator handed to \<open>GetRecords\<close> is the
  source's \<^verbatim>\<open>*string\<close>, so it is an option here as well.
\<close>

record kinesis_api =
  DescribeStream :: "string \<Rightarrow> error + string list"
  GetShardIterator :: "string \<Rightarrow> string \<Rightarrow> string \<Rightarrow> error + string"
  GetRecords :: "string option \<Rightarrow> error + (string list \<times> string option)"

text \<open>
  Of the decoded \<^verbatim>\<open>Event\<close> the source reads \<^verbatim>\<open>Detail.Name\<close> only.  The variable
  \<^verbatim>\<open>event\<close> is declared once per batch and \<^verbatim>\<open>json.Unmarshal\<close> writes into it record
  after record, so the decoder takes the event it updates.
\<close>

record Event =
  Detail_Name :: string

definition zero_Event :: Event where
  "zero_Event = \<lparr>Detail_Name = []\<rparr>"

text \<open>What a call does to the outside, in order: the requests it sends and its sleeps.\<close>

datatype action =
    CallDescribeStream string
  | CallGetShardIterator string string string
  | CallGetRecords "string option"
  | Sleep int

text \<open>The loop over the records of one batch (lines 318 to 329).\<close>

datatype scan = Matched | Failed error | NoMatch

fun scan_records ::
  "(string \<Rightarrow> Event \<Rightarrow> error + Event) \<Rightarrow> string list \<Rightarrow> Event \<Rightarrow> string list \<Rightarrow> scan"
where
  "scan_records unmarshal keys event [] = NoMatch"
| "scan_records unmarshal keys event (record # records) =
     (case unmarshal record event of
        Inl e \<Rightarrow> Failed e
      | Inr event' \<Rightarrow>
          if list_ex (\<lambda>key. HasPrefix (Detail_Name event') key) keys then Matched
          else scan_records unmarshal keys event' records)"

text \<open>\<^verbatim>\<open>return *shardIterator, err\<close>: dereferencing a nil iterator panics.\<close>

definition return_deref :: "string option \<Rightarrow> error option \<Rightarrow> panic + (string \<times> error option)" where
  "return_deref shardIterator err =
     (case shardIterator of None \<Rightarrow> Inl NilDereference | Some s \<Rightarrow> Inr (s, err))"

text \<open>
  The result of running a call for a bounded number of loop iterations: the actions
  performed so far, and \<open>None\<close> while the call has not returned, or how it ended, by
  a panic or by returning a cursor and an error.
\<close>

type_synonym watch_result = "action list \<times> (panic + (string \<times> error option)) option"

text \<open>The polling loop (lines 308 to 331), \<open>fuel\<close> bounding its iterations.\<close>

fun ssm_poll ::
  "nat \<Rightarrow> kinesis_api \<Rightarrow> (string \<Rightarrow> Event \<Rightarrow> error + Event) \<Rightarrow> string list \<Rightarrow> string option
     \<Rightarrow> watch_result"
where
  "ssm_poll 0 k unmarshal keys shardIterator = ([], None)"
| "ssm_poll (Suc fuel) k unmarshal keys shardIterator =
     (case GetRecords k shardIterator of
        Inl e \<Rightarrow> ([CallGetRecords shardIterator], Some (return_deref shardIterator (Some e)))
      | Inr out \<Rightarrow>
          (case scan_records unmarshal keys zero_Event (fst out) of
             Failed e \<Rightarrow> ([CallGetRecords shardIterator], Some (return_deref (snd out) (Some e)))
           | Matched \<Rightarrow> ([CallGetRecords shardIterator], Some (return_deref (snd out) None))
           | NoMatch \<Rightarrow>
               (let rest = ssm_poll fuel k unmarshal keys (snd out)
                in (CallGetRecords shardIterator # Sleep (5 * Second) # fst rest, snd rest))))"

definition ShardIteratorTypeLatest :: string where
  "ShardIteratorTypeLatest = ''LATEST''"

text \<open>
  \<^verbatim>\<open>WatchPrefix\<close>.  \<open>stopChan\<close> says whether the stop channel has a value ready; the
  source never receives from it.  The first shard is indexed in the argument of the
  log call on line 290, before the cursor is looked at, which panics on a stream
  without shards.
\<close>

definition ssm_WatchPrefix ::
  "nat \<Rightarrow> kinesis_api \<Rightarrow> (string \<Rightarrow> Event \<Rightarrow> error + Event) \<Rightarrow> string \<Rightarrow> string list \<Rightarrow> string
     \<Rightarrow> bool \<Rightarrow> watch_result"
where
  "ssm_WatchPrefix fuel k unmarshal prefix keys waitIndex stopChan =
     (case DescribeStream k ''test'' of
        Inl e \<Rightarrow> ([CallDescribeStream ''test''], Some (Inr (waitIndex, Some e)))
      | Inr shards \<Rightarrow>
          (case shards of
             [] \<Rightarrow> ([CallDescribeStream ''test''], Some (Inl IndexOutOfRange))
           | shard # others \<Rightarrow>
               if waitIndex = [] then
                 (case GetShardIterator k shard ''test'' ShardIteratorTypeLatest of
                    Inl e \<Rightarrow>
                      ([CallDescribeStream ''test'',
                        CallGetShardIterator shard ''test'' ShardIteratorTypeLatest],
                       Some (Inr (waitIndex, Some e)))
                  | Inr it \<Rightarrow>
                      (let rest = ssm_poll fuel k unmarshal keys (Some it)
                       in (CallDescribeStream ''test''
                             # CallGetShardIterator shard ''test'' ShardIteratorTypeLatest
                             # fst rest, snd rest)))
               else
                 (let rest = ssm_poll fuel k unmarshal keys (Some waitIndex)
                  in (CallDescribeStream ''test'' # Sleep (5 * Second) # fst rest, snd rest))))"

text \<open>
  A decoder and two streams to run \<open>ssm_WatchPrefix\<close> on.  The record data stands for
  the name it decodes to.  The first stream holds a change of /other/key at the
  position it0 and a change of /app/db/host at it1; the second one answers every fetch
  with a change of /other/key.
\<close>

definition name_of :: "string \<Rightarrow> Event \<Rightarrow> error + Event" where
  "name_of data event =
     (if data = ''garbage'' then Inl (DecodeError ''invalid character'')
      else Inr (event\<lparr>Detail_Name := data\<rparr>))"

definition test_stream :: kinesis_api where
  "test_stream =
     \<lparr>DescribeStream = (\<lambda>s. Inr [''shardId-000'']),
      GetShardIterator = (\<lambda>shard stream ty. Inr ''it0''),
      GetRecords =
        (\<lambda>it. if it = Some ''it0'' then Inr ([''/other/key''], Some ''it1'')
              else if it = Some ''it1'' then Inr ([''/app/db/host''], Some ''it2'')
              else Inr ([], it))\<rparr>"

definition quiet_stream :: kinesis_api where
  "quiet_stream =
     \<lparr>DescribeStream = (\<lambda>s. Inr [''shardId-000'']),
      GetShardIterator = (\<lambda>shard stream ty. Inr ''it0''),
      GetRecords = (\<lambda>it. Inr ([''/other/key''], it))\<rparr>"

section \<open>Package zookeeper: the hierarchical store with watches\<close>

subsection \<open>GetValues\<close>

text \<open>
  The connection is an opaque service.  Of a \<^verbatim>\<open>Stat\<close> the source reads
  \<^verbatim>\<open>NumChildren\<close> only.  \<open>Children\<close> gives the names of a node's children and its
  stat, \<open>Get\<close> its data, \<open>Exists\<close> whether it exists and its stat; the library's
  \<open>Exists\<close> reports a missing node as \<open>(False, zero stat)\<close> with a nil error.
\<close>

record Stat =
  NumChildren :: int

record zk_conn =
  Children :: "string \<Rightarrow> error + (string list \<times> Stat)"
  Get :: "string \<Rightarrow> error + string"
  Exists :: "string \<Rightarrow> error + (bool \<times> Stat)"

text \<open>
  \<^verbatim>\<open>strings.Replace(v, "/*", "", -1)\<close>: every occurrence of the two characters /* is
  removed, scanning from the left.
\<close>

fun Replace_wildcard :: "string \<Rightarrow> string" where
  "Replace_wildcard [] = []"
| "Replace_wildcard [c] = [c]"
| "Replace_wildcard (c # d # cs) =
     (if c = CHR ''/'' \<and> d = CHR ''*'' then Replace_wildcard cs
      else c # Replace_wildcard (d # cs))"

text \<open>
  \<^verbatim>\<open>nodeWalk\<close> and its loop over the children; \<open>fuel\<close> bounds the depth of the
  recursion, and \<open>None\<close> means that the bound was hit.  The result is the map as the
  call leaves it and the error returned.  The error of the recursive call on line 52
  is dropped by the source, so only the map is taken from it.
\<close>

fun nodeWalk :: "nat \<Rightarrow> zk_conn \<Rightarrow> string \<Rightarrow> vars \<Rightarrow> (vars \<times> error option) option"
  and nodeWalk_children ::
    "nat \<Rightarrow> zk_conn \<Rightarrow> string \<Rightarrow> string list \<Rightarrow> vars \<Rightarrow> (vars \<times> error option) option"
where
  "nodeWalk 0 c prefix vars = None"
| "nodeWalk (Suc fuel) c prefix vars =
     (case Children c prefix of
        Inl e \<Rightarrow> Some (vars, Some e)
      | Inr (l, stat) \<Rightarrow>
          if NumChildren stat = 0 then
            (case Get c prefix of
               Inl e \<Rightarrow> Some (vars, Some e)
             | Inr b \<Rightarrow> Some (vars(prefix \<mapsto> b), None))
          else nodeWalk_children fuel c prefix l vars)"
| "nodeWalk_children fuel c prefix [] vars = Some (vars, None)"
| "nodeWalk_children fuel c prefix (key # l) vars =
     (case Exists c (prefix @ ''/'' @ key) of
        Inl e \<Rightarrow> Some (vars, Some e)
      | Inr (found, stat) \<Rightarrow>
          if NumChildren stat = 0 then
            (case Get c (prefix @ ''/'' @ key) of
               Inl e \<Rightarrow> Some (vars, Some e)
             | Inr b \<Rightarrow> nodeWalk_children fuel c prefix l (vars(prefix @ ''/'' @ key \<mapsto> b)))
          else
            (case nodeWalk fuel c (prefix @ ''/'' @ key) vars of
               None \<Rightarrow> None
             | Some (vars', err) \<Rightarrow> nodeWalk_children fuel c prefix l vars'))"

text \<open>The loop of \<^verbatim>\<open>GetValues\<close> over the keys, started from the map \<open>vars\<close>.\<close>

fun zk_GetValues_from ::
  "nat \<Rightarrow> zk_conn \<Rightarrow> string list \<Rightarrow> vars \<Rightarrow> (vars \<times> error option) option"
where
  "zk_GetValues_from fuel c [] vars = Some (vars, None)"
| "zk_GetValues_from fuel c (v # keys) vars =
     (case Exists c (Replace_wildcard v) of
        Inl e \<Rightarrow> Some (vars, Some e)
      | Inr found \<Rightarrow>
          (case nodeWalk fuel c
                  (if Replace_wildcard v = ''/'' then [] else Replace_wildcard v) vars of
             None \<Rightarrow> None
           | Some (vars', Some e) \<Rightarrow> Some (vars', Some e)
           | Some (vars', None) \<Rightarrow> zk_GetValues_from fuel c keys vars'))"

definition zk_GetValues :: "nat \<Rightarrow> zk_conn \<Rightarrow> string list \<Rightarrow> (vars \<times> error option) option" where
  "zk_GetValues fuel c keys = zk_GetValues_from fuel c keys Map.empty"

subsection \<open>A store behind the connection\<close>

text \<open>
  A store at rest: a tree of nodes, each with its data and its named children.  A
  path is resolved segment by segment from the root; the root answers to "/" and,
  as on the server, to the empty path.
\<close>

datatype znode = ZNode string "(string \<times> znode) list"

fun split_slash :: "string \<Rightarrow> string list" where
  "split_slash [] = [[]]"
| "split_slash (c # cs) =
     (if c = CHR ''/'' then [] # split_slash cs
      else (c # hd (split_slash cs)) # tl (split_slash cs))"

fun descend :: "znode \<Rightarrow> string list \<Rightarrow> znode option" where
  "descend node [] = Some node"
| "descend (ZNode d cs) (seg # segs) =
     (case map_of cs seg of None \<Rightarrow> None | Some child \<Rightarrow> descend child segs)"

definition lookup_path :: "znode \<Rightarrow> string \<Rightarrow> znode option" where
  "lookup_path root p =
     (if p = ''/'' then Some root
      else (case split_slash p of
              [] \<Rightarrow> None
            | first # segs \<Rightarrow> if first = [] then descend root segs else None))"

definition stat_of :: "znode \<Rightarrow> Stat" where
  "stat_of node = (case node of ZNode d cs \<Rightarrow> \<lparr>NumChildren = int (length cs)\<rparr>)"

definition conn_of :: "znode \<Rightarrow> zk_conn" where
  "conn_of root =
     \<lparr>Children = (\<lambda>p. case lookup_path root p of
                        None \<Rightarrow> Inl ErrNoNode
                      | Some (ZNode d cs) \<Rightarrow> Inr (map fst cs, stat_of (ZNode d cs))),
      Get = (\<lambda>p. case lookup_path root p of
                   None \<Rightarrow> Inl ErrNoNode
                 | Some (ZNode d cs) \<Rightarrow> Inr d),
      Exists = (\<lambda>p. case lookup_path root p of
                      None \<Rightarrow> Inr (False, \<lparr>NumChildren = 0\<rparr>)
                    | Some node \<Rightarrow> Inr (True, stat_of node))\<rparr>"





text \<open>
  The store of the specification's example, whose only leaf is /app/db/host, and a
  second one with a leaf /a/b next to a node that is named by an asterisk.
\<close>

definition app_store :: znode where
  "app_store =
     ZNode [] [(''app'', ZNode [] [(''db'', ZNode [] [(''host'', ZNode ''x'' [])])])]"


subsection \<open>WatchPrefix\<close>

text \<open>
  The response a watcher relays.  Its first field is the source's \<^verbatim>\<open>waitIndex\<close> field
  and its second the \<^verbatim>\<open>err\<close> field.
\<close>

record watchResponse =
  resp_waitIndex :: string
  resp_err :: "error option"

datatype EventType =
    EventNodeCreated
  | EventNodeDeleted
  | EventNodeDataChanged
  | EventNodeChildrenChanged
  | EventSession
  | EventNotWatching

record zk_Event =
  ev_Type :: EventType
  ev_Err :: "error option"

text \<open>
  The goroutine \<^verbatim>\<open>watch\<close>, by what it sends on the response channel, in order, as long
  as its sends are received.  Its inputs are the errors of \<^verbatim>\<open>GetW\<close> and \<^verbatim>\<open>ChildrenW\<close> and
  what its \<^verbatim>\<open>select\<close> receives, one item per iteration: an event of the key, an event
  of the children, or the closing of \<^verbatim>\<open>cancelRoutine\<close>.
\<close>

datatype watch_input = KeyEvent zk_Event | ChildEvent zk_Event | Cancel

fun watch_loop :: "watch_input list \<Rightarrow> watchResponse list" where
  "watch_loop [] = []"
| "watch_loop (KeyEvent e # inputs) =
     (if ev_Type e = EventNodeDataChanged
      then \<lparr>resp_waitIndex = [], resp_err = ev_Err e\<rparr> # watch_loop inputs
      else watch_loop inputs)"
| "watch_loop (ChildEvent e # inputs) =
     (if ev_Type e = EventNodeChildrenChanged
      then \<lparr>resp_waitIndex = [], resp_err = ev_Err e\<rparr> # watch_loop inputs
      else watch_loop inputs)"
| "watch_loop (Cancel # inputs) = []"

definition watch :: "error option \<Rightarrow> error option \<Rightarrow> watch_input list \<Rightarrow> watchResponse list" where
  "watch getw_err childrenw_err inputs =
     (case getw_err of None \<Rightarrow> [] | Some e \<Rightarrow> [\<lparr>resp_waitIndex = [], resp_err = Some e\<rparr>])
     @ (case childrenw_err of None \<Rightarrow> []
        | Some e \<Rightarrow> [\<lparr>resp_waitIndex = [], resp_err = Some e\<rparr>])
     @ watch_loop inputs"

text \<open>
  \<^verbatim>\<open>WatchPrefix\<close>.  Which watchers lines 122 to 148 start decides only which responses
  can arrive; the value returned is decided by the final \<^verbatim>\<open>select\<close>, whose first ready
  case is the parameter \<open>sel\<close>: the stop channel, or a response received from a
  watcher.
\<close>

datatype select_case = StopChan | RespChan watchResponse

definition zk_WatchPrefix ::
  "nat \<Rightarrow> zk_conn \<Rightarrow> string \<Rightarrow> string list \<Rightarrow> string \<Rightarrow> select_case
     \<Rightarrow> (string \<times> error option) option"
where
  "zk_WatchPrefix fuel c prefix keys waitIndex sel =
     (case zk_GetValues fuel c [prefix] of
        None \<Rightarrow> None
      | Some (entries, Some e) \<Rightarrow> Some (waitIndex, Some e)
      | Some (entries, None) \<Rightarrow>
          (case sel of
             StopChan \<Rightarrow> Some (waitIndex, None)
           | RespChan r \<Rightarrow> Some (resp_waitIndex r, resp_err r)))"

text \<open>A change of a watched key's data, reported without error.\<close>

definition data_changed :: zk_Event where
  "data_changed = \<lparr>ev_Type = EventNodeDataChanged, ev_Err = None\<rparr>"

section \<open>Inputs for the failing GetValues calls\<close>

text \<open>
  A metadata endpoint that answers the first request with the body true and refuses
  every later one, and a decoder that understands this one body.
\<close>

definition half_endpoint :: client where
  "half_endpoint =
     \<lparr>url = ''http://rancher-metadata'',
      httpDo = (\<lambda>n u. if n = 0 then Inr (''true'', None)
                       else Inl (TransportError ''connection reset''))\<rparr>"

definition decode_bool :: "string \<Rightarrow> error + int jvalue" where
  "decode_bool body =
     (if body = ''true'' then Inr (JBool True)
      else if body = ''false'' then Inr (JBool False)
      else Inl (DecodeError ''invalid character''))"

section \<open>Properties of the metadata backend\<close>

subsection \<open>WatchPrefix\<close>

text \<open>
  C3, as the code has it: \<open>rancher_WatchPrefix\<close> returns the cursor 0 and a nil error
  for every prefix, every list of keys and every input cursor.  It does not hand the
  input cursor back.
\<close>

theorem rancher_WatchPrefix_zero: "rancher_WatchPrefix prefix keys waitIndex = (0, None)"
  by (simp add: rancher_WatchPrefix_def)

text \<open>
  C3 as stated (the input cursor comes back unchanged) fails for the cursor 7.
\<close>

theorem rancher_WatchPrefix_counterexample:
  "rancher_WatchPrefix ''/app'' [''/app''] 7 \<noteq> (7, None)"
  by (simp add: rancher_WatchPrefix_def)

subsection \<open>The connection bootstrap\<close>

lemma sum_backoffs: "sum_list (backoffs k) = (2 ^ k - 1) * Second"
  by (induction k) (simp_all add: backoffs_def algebra_simps)

lemma ceiling_reached: "(maxTime \<le> sum_list (backoffs k)) = (5 \<le> k)"
proof
  assume h: "maxTime \<le> sum_list (backoffs k)"
  show "5 \<le> k"
  proof (rule ccontr)
    assume "\<not> 5 \<le> k"
    then have "k \<le> 4" by simp
    then have "(2::int) ^ k \<le> 2 ^ 4" by (intro power_increasing) simp_all
    with h show False by (simp add: sum_backoffs maxTime_def Second_def)
  qed
next
  assume "5 \<le> k"
  then have "(2::int) ^ 5 \<le> 2 ^ k" by (intro power_increasing) simp_all
  then show "maxTime \<le> sum_list (backoffs k)"
    by (simp add: sum_backoffs maxTime_def Second_def)
qed

lemma testConnection_loop_fail:
  "i < maxTime \<Longrightarrow> makeMetaDataRequest c n ''/'' = Inl e \<Longrightarrow>
   testConnection_loop (Suc fuel) c n i err slept =
     testConnection_loop fuel c (n + 1) (i * 2) (Some e) (slept @ [i])"
  by simp

lemma testConnection_loop_ok:
  "i < maxTime \<Longrightarrow> makeMetaDataRequest c n ''/'' = Inr b \<Longrightarrow>
   testConnection_loop (Suc fuel) c n i err slept = Some (None, slept)"
  by simp

lemma testConnection_loop_end:
  "\<not> i < maxTime \<Longrightarrow> testConnection_loop (Suc fuel) c n i err slept = Some (err, slept)"
  by simp

text \<open>
  After \<open>k \<le> 5\<close> failed probes the loop stands at the delay \<open>2 ^ k\<close> seconds, holds
  the error of the last probe and has slept \<open>backoffs k\<close>.
\<close>

lemma testConnection_loop_run:
  "k \<le> 5 \<Longrightarrow> \<forall>j<k. isl (probe c n j) \<Longrightarrow>
   testConnection_loop (k + fuel) c n (1 * Second) None [] =
     testConnection_loop fuel c (n + k) (2 ^ k * Second)
       (if k = 0 then None else Some (projl (probe c n (k - 1)))) (backoffs k)"
proof (induction k arbitrary: fuel)
  case 0
  then show ?case by (simp add: backoffs_def)
next
  case (Suc k)
  then have k: "k \<le> 4" and fails: "\<forall>j<k. isl (probe c n j)" and last: "isl (probe c n k)"
    by simp_all
  from k have "(2::int) ^ k \<le> 2 ^ 4" by (intro power_increasing) simp_all
  then have lt: "2 ^ k * Second < maxTime" by (simp add: maxTime_def Second_def)
  from last obtain e where e: "makeMetaDataRequest c (n + k) ''/'' = Inl e"
    by (auto simp: probe_def isl_def)
  have "testConnection_loop (Suc k + fuel) c n (1 * Second) None [] =
        testConnection_loop (Suc fuel) c (n + k) (2 ^ k * Second)
          (if k = 0 then None else Some (projl (probe c n (k - 1)))) (backoffs k)"
    using Suc.IH [of "Suc fuel"] k fails by simp
  also have "\<dots> = testConnection_loop fuel c (n + k + 1) (2 ^ k * Second * 2) (Some e)
       (backoffs k @ [2 ^ k * Second])"
    using lt e by (rule testConnection_loop_fail)
  finally show ?case using e
    by (simp add: backoffs_def probe_def mult_ac del: testConnection_loop.simps)
qed

text \<open>
  C7: with enough fuel for the at most five probes, \<open>testConnection\<close> returns.  If the
  probe number \<open>k < 5\<close> is the first to succeed, it returns nil having slept exactly
  1, 2, ..., \<open>2 ^ (k - 1)\<close> seconds, the delays after the \<open>k\<close> failures and nothing
  after the success.  If the first five probes all fail, it returns the error of the
  fifth, the last one made, having slept 1, 2, 4, 8 and 16 seconds.  Five failures
  are exactly the point where the cumulative wait has reached the ceiling of twenty
  seconds: the sum of the first \<open>k\<close> delays is at least \<open>maxTime\<close> if and only if
  \<open>5 \<le> k\<close>.
\<close>

theorem testConnection_backoff:
  assumes fuel: "6 \<le> fuel"
  shows "(\<forall>k<5. (\<forall>j<k. isl (probe c n j)) \<and> \<not> isl (probe c n k) \<longrightarrow>
            testConnection fuel c n = Some (None, backoffs k))
       \<and> ((\<forall>j<5. isl (probe c n j)) \<longrightarrow>
            testConnection fuel c n = Some (Some (projl (probe c n 4)), backoffs 5))
       \<and> (\<forall>k. (maxTime \<le> sum_list (backoffs k)) = (5 \<le> k))"
proof (intro conjI allI impI)
  fix k :: nat
  assume k: "k < 5" and h: "(\<forall>j<k. isl (probe c n j)) \<and> \<not> isl (probe c n k)"
  define f where "f = fuel - k - 1"
  from fuel k have f: "fuel = k + Suc f" by (simp add: f_def)
  from k have "(2::int) ^ k \<le> 2 ^ 4" by (intro power_increasing) simp_all
  then have lt: "2 ^ k * Second < maxTime" by (simp add: maxTime_def Second_def)
  from h obtain b where b: "makeMetaDataRequest c (n + k) ''/'' = Inr b"
    by (cases "makeMetaDataRequest c (n + k) ''/''") (auto simp: probe_def)
  show "testConnection fuel c n = Some (None, backoffs k)"
    unfolding testConnection_def f
    using testConnection_loop_run [of k c n "Suc f"] k h testConnection_loop_ok [OF lt b]
    by simp
next
  assume h: "\<forall>j<5. isl (probe c n j)"
  define f where "f = fuel - 6"
  from fuel have f: "fuel = 5 + Suc f" by (simp add: f_def)
  have ge: "\<not> 2 ^ 5 * Second < maxTime" by (simp add: maxTime_def Second_def)
  show "testConnection fuel c n = Some (Some (projl (probe c n 4)), backoffs 5)"
    unfolding testConnection_def f
    using testConnection_loop_run [of 5 c n "Suc f"] h testConnection_loop_end [OF ge]
    by simp
next
  fix k show "(maxTime \<le> sum_list (backoffs k)) = (5 \<le> k)" by (rule ceiling_reached)
qed

text \<open>
  The theorem at the two endpoints: the flaky one is reached at the third probe after
  waits of one and two seconds; the dead one is given up after waits of 1, 2, 4, 8
  and 16 seconds with the error of the fifth probe.
\<close>

theorem testConnection_backoff_witness:
  "isl (probe flaky_endpoint 0 0) \<and> isl (probe flaky_endpoint 0 1)
   \<and> \<not> isl (probe flaky_endpoint 0 2)
   \<and> testConnection 6 flaky_endpoint 0 = Some (None, [1000000000, 2000000000])
   \<and> isl (probe dead_endpoint 0 0) \<and> isl (probe dead_endpoint 0 1)
   \<and> isl (probe dead_endpoint 0 2) \<and> isl (probe dead_endpoint 0 3)
   \<and> isl (probe dead_endpoint 0 4)
   \<and> testConnection 6 dead_endpoint 0 =
       Some (Some (TransportError ''refused, attempt 4''),
             [1000000000, 2000000000, 4000000000, 8000000000, 16000000000])"
proof -
  have six: "(6::nat) \<le> 6" by simp
  have two: "(2::nat) < 5" by simp
  have flaky_each: "isl (probe flaky_endpoint 0 0)" "isl (probe flaky_endpoint 0 1)"
      "\<not> isl (probe flaky_endpoint 0 2)"
    by (simp_all add: probe_def makeMetaDataRequest_def flaky_endpoint_def)
  have flaky: "(\<forall>j<2. isl (probe flaky_endpoint 0 j)) \<and> \<not> isl (probe flaky_endpoint 0 2)"
    by (simp add: probe_def makeMetaDataRequest_def flaky_endpoint_def)
  have dead_each: "isl (probe dead_endpoint 0 j)" for j
    by (simp add: probe_def makeMetaDataRequest_def dead_endpoint_def)
  have dead: "\<forall>j<5. isl (probe dead_endpoint 0 j)"
    using dead_each by simp
  have last: "projl (probe dead_endpoint 0 4) = TransportError ''refused, attempt 4''"
    by (simp add: probe_def makeMetaDataRequest_def dead_endpoint_def Itoa_def digits.simps)
  have b2: "backoffs 2 = [1000000000, 2000000000]"
    by (simp add: backoffs_def Second_def upt_rec)
  have b5: "backoffs 5 = [1000000000, 2000000000, 4000000000, 8000000000, 16000000000]"
    by (simp add: backoffs_def Second_def upt_rec)
  from testConnection_backoff [OF six, of flaky_endpoint 0] two flaky
  have r1: "testConnection 6 flaky_endpoint 0 = Some (None, backoffs 2)" by blast
  from testConnection_backoff [OF six, of dead_endpoint 0] dead
  have r2: "testConnection 6 dead_endpoint 0 =
      Some (Some (projl (probe dead_endpoint 0 4)), backoffs 5)" by blast
  show ?thesis using flaky_each dead_each r1 r2 last b2 b5 by simp
qed

subsection \<open>The tree flattener\<close>

lemma item_idx_ok: "name_ok item \<Longrightarrow> item_idx i item = Inr (segment_spec i item)"
  by (cases item) (auto split: option.splits jvalue.splits)

lemma store_all_append: "store_all (xs @ ys) m = store_all ys (store_all xs m)"
  by (simp add: store_all_def)

text \<open>
  On values whose element names are strings, \<open>treeWalk\<close> and its two loops write
  exactly the entries the rules list, in that order, and log exactly the diagnostics.
\<close>

lemma treeWalk_refines:
  "names_ok v \<Longrightarrow>
     treeWalk fmt root v st =
       Inr (store_all (flatten_spec fmt root v) (fst st), snd st @ diagnostics v)"
  "list_all (\<lambda>kv. names_ok (snd kv)) kvs \<Longrightarrow>
     treeWalk_entries fmt root kvs st =
       Inr (store_all (flatten_entries fmt root kvs) (fst st),
            snd st @ concat (map (\<lambda>kv. diagnostics (snd kv)) kvs))"
  "list_all (\<lambda>item. name_ok item \<and> names_ok item) items \<Longrightarrow>
     treeWalk_items fmt root i items st =
       Inr (store_all (flatten_items fmt root i items) (fst st),
            snd st @ concat (map diagnostics items))"
proof (induction fmt root v st and fmt root kvs st and fmt root i items st
       rule: treeWalk_treeWalk_entries_treeWalk_items.induct)
  case (9 fmt root kv kvs st)
  then show ?case by (simp add: store_all_append Join2_def)
next
  case (11 fmt root i item items st)
  then show ?case by (simp add: store_all_append Join2_def item_idx_ok)
qed (simp_all add: store_all_def FormatBool_def)

lemma treeWalk_regions:
  "treeWalk Itoa ''/regions'' regions_example (Map.empty, []) =
     Inr ([''/regions/eu/name'' \<mapsto> ''eu'', ''/regions/eu/val'' \<mapsto> ''1'',
           ''/regions/us/name'' \<mapsto> ''us'', ''/regions/us/val'' \<mapsto> ''2''], [])"
  by (simp add: regions_example_def Itoa_def Join2_def digits.simps)

text \<open>
  C4, amended.  For every root, every formatter of numbers and every value in which
  each \<^verbatim>\<open>"name"\<close> entry of an array-element object is a string, \<open>treeWalk\<close> returns
  the input map updated with the entries of \<open>flatten_spec\<close> in walk order (a later
  entry for the same path replaces an earlier one): a boolean as true or false, a
  string as itself, a number as formatted, null as "null", an object entry under
  root + "/" + key, an array element under its name if it is an object with one and
  under its decimal index otherwise.  The element's name entry is itself flattened
  like any other entry, so the example rooted at /regions gives four entries, the two
  names and the two values.
\<close>

theorem treeWalk_flattens:
  "(names_ok v \<longrightarrow>
      treeWalk fmt root v st =
        Inr (store_all (flatten_spec fmt root v) (fst st), snd st @ diagnostics v))
   \<and> treeWalk Itoa ''/regions'' regions_example (Map.empty, []) =
       Inr ([''/regions/eu/name'' \<mapsto> ''eu'', ''/regions/eu/val'' \<mapsto> ''1'',
             ''/regions/us/name'' \<mapsto> ''us'', ''/regions/us/val'' \<mapsto> ''2''], [])"
  using treeWalk_refines(1) [of v fmt root st] treeWalk_regions by blast

text \<open>
  The theorem at a payload with a nested array: the boolean is stored under its
  index, the value of unrecognised type is logged and skipped, the walk goes on.
\<close>

theorem treeWalk_flattens_witness:
  "names_ok mixed_example
   \<and> treeWalk Itoa ''/self'' mixed_example (Map.empty, []) =
       Inr ([''/self/a/0'' \<mapsto> ''true'', ''/self/a/2/n'' \<mapsto> ''7'', ''/self/b'' \<mapsto> ''null''],
            [''Unknown type: chan''])"
proof -
  have ok: "names_ok mixed_example" by (simp add: mixed_example_def)
  have "treeWalk Itoa ''/self'' mixed_example (Map.empty, []) =
      Inr (store_all (flatten_spec Itoa ''/self'' mixed_example) (fst (Map.empty, [])),
           snd (Map.empty, []) @ diagnostics mixed_example)"
    using treeWalk_flattens [of mixed_example Itoa "''/self''" "(Map.empty, [])"] ok by simp
  then show ?thesis using ok
    by (simp add: mixed_example_def store_all_def Itoa_def digits.simps)
qed

text \<open>
  C4 as stated fails at its own example: the result is not the two-entry map, since
  it also holds /regions/eu/name.
\<close>

theorem treeWalk_example_counterexample:
  "treeWalk Itoa ''/regions'' regions_example (Map.empty, []) \<noteq>
     Inr ([''/regions/eu/val'' \<mapsto> ''1'', ''/regions/us/val'' \<mapsto> ''2''], [])"
proof
  assume "treeWalk Itoa ''/regions'' regions_example (Map.empty, []) =
     Inr ([''/regions/eu/val'' \<mapsto> ''1'', ''/regions/us/val'' \<mapsto> ''2''], [])"
  then have "[''/regions/eu/name'' \<mapsto> ''eu'', ''/regions/eu/val'' \<mapsto> ''1'',
           ''/regions/us/name'' \<mapsto> ''us'', ''/regions/us/val'' \<mapsto> ''2'']
      = [''/regions/eu/val'' \<mapsto> ''1'', ''/regions/us/val'' \<mapsto> (''2''::string)]"
    by (simp add: treeWalk_regions)
  then have "[''/regions/eu/name'' \<mapsto> ''eu'', ''/regions/eu/val'' \<mapsto> ''1'',
           ''/regions/us/name'' \<mapsto> ''us'', ''/regions/us/val'' \<mapsto> ''2''] ''/regions/eu/name''
      = [''/regions/eu/val'' \<mapsto> ''1'', ''/regions/us/val'' \<mapsto> (''2''::string)] ''/regions/eu/name''"
    by (rule arg_cong)
  then show False by simp
qed

text \<open>
  C8 at the payload \<^verbatim>\<open>[{"name": 1}]\<close>: the walk does not complete.  The unchecked
  assertion \<^verbatim>\<open>name.(string)\<close> panics, whatever the root, the map and the log were.
\<close>

theorem treeWalk_malformed_name_panics:
  "treeWalk fmt root (JArray [JObject [(''name'', JNumber x)]]) st = Inl TypeAssertion"
  by simp

section \<open>Properties of the parameter-store backend\<close>

subsection \<open>GetValues\<close>

lemma ssm_GetValues_from_append:
  "ssm_GetValues_from c (ks1 @ ks2) vars =
     (case ssm_GetValues_from c ks1 vars of
        (m, None) \<Rightarrow> ssm_GetValues_from c ks2 m
      | (m, Some e) \<Rightarrow> (m, Some e))"
  by (induction ks1 arbitrary: vars)
     (auto simp: getParametersWithPrefix_def split: prod.splits option.splits)

lemma getParametersWithPrefix_nil [simp]: "snd (getParametersWithPrefix c key) = None"
  by (simp add: getParametersWithPrefix_def)

text \<open>
  C6: let the keys before \<open>key\<close> have been processed without error, giving the map
  \<open>m\<close>, and let the path-prefix fetch for \<open>key\<close> yield nothing.  Then the exact fetch
  decides: a parameter found is added to the map; a failure with the code
  ParameterNotFound adds nothing and raises nothing, the remaining keys being
  processed from the unchanged map \<open>m\<close>; a failure with any other code ends
  \<open>ssm_GetValues\<close> with that error.
\<close>

theorem ssm_GetValues_fallback:
  assumes before: "ssm_GetValues c ks1 = (m, None)"
    and no_resp: "fst (getParametersWithPrefix c key) = Map.empty"
  shows "(case GetParameter c key of
            Inl e \<Rightarrow>
              if Code e = ''ParameterNotFound''
              then ssm_GetValues c (ks1 @ key # ks2) = ssm_GetValues_from c ks2 m
              else ssm_GetValues c (ks1 @ key # ks2) = (m, Some (AwsError e))
          | Inr p \<Rightarrow>
              ssm_GetValues c (ks1 @ key # ks2) = ssm_GetValues_from c ks2 (m(fst p \<mapsto> snd p)))"
proof -
  have resp: "getParametersWithPrefix c key = (Map.empty, None)"
    by (rule prod_eqI) (simp_all add: no_resp)
  have step: "ssm_GetValues c (ks1 @ key # ks2) = ssm_GetValues_from c (key # ks2) m"
    using before by (simp add: ssm_GetValues_def ssm_GetValues_from_append)
  show ?thesis
    unfolding step
    by (simp add: resp getParameter_def ErrCodeParameterNotFound_def split: sum.splits)
qed

text \<open>
  The theorem on \<open>param_store\<close>, after the key /app: the missing /nope is passed over
  and /token is still fetched; the unreadable /locked ends the call with its error.
\<close>

theorem ssm_GetValues_fallback_witness:
  "ssm_GetValues param_store [''/app''] =
     ([''/app/db/host'' \<mapsto> ''x'', ''/app/db/port'' \<mapsto> ''5432''], None)
   \<and> fst (getParametersWithPrefix param_store ''/nope'') = Map.empty
   \<and> GetParameter param_store ''/nope'' =
       Inl \<lparr>Code = ''ParameterNotFound'', Message = ''no such parameter''\<rparr>
   \<and> ssm_GetValues param_store [''/app'', ''/nope'', ''/token''] =
       ([''/app/db/host'' \<mapsto> ''x'', ''/app/db/port'' \<mapsto> ''5432'', ''/token'' \<mapsto> ''s3cr3t''], None)
   \<and> fst (getParametersWithPrefix param_store ''/locked'') = Map.empty
   \<and> ssm_GetValues param_store [''/app'', ''/locked'', ''/token''] =
       ([''/app/db/host'' \<mapsto> ''x'', ''/app/db/port'' \<mapsto> ''5432''],
        Some (AwsError \<lparr>Code = ''AccessDeniedException'', Message = ''denied''\<rparr>))"
proof -
  have app: "ssm_GetValues param_store [''/app''] =
     ([''/app/db/host'' \<mapsto> ''x'', ''/app/db/port'' \<mapsto> ''5432''], None)"
    by (simp add: ssm_GetValues_def getParametersWithPrefix_def param_store_def store_all_def)
  have nope: "fst (getParametersWithPrefix param_store ''/nope'') = Map.empty"
    by (simp add: getParametersWithPrefix_def param_store_def store_all_def)
  have locked: "fst (getParametersWithPrefix param_store ''/locked'') = Map.empty"
    by (simp add: getParametersWithPrefix_def param_store_def store_all_def)
  have g1: "GetParameter param_store ''/nope'' =
       Inl \<lparr>Code = ''ParameterNotFound'', Message = ''no such parameter''\<rparr>"
    by (simp add: param_store_def)
  have g2: "GetParameter param_store ''/locked'' =
       Inl \<lparr>Code = ''AccessDeniedException'', Message = ''denied''\<rparr>"
    by (simp add: param_store_def)
  have tok: "ssm_GetValues_from param_store [''/token'']
       [''/app/db/host'' \<mapsto> ''x'', ''/app/db/port'' \<mapsto> ''5432''] =
       ([''/app/db/host'' \<mapsto> ''x'', ''/app/db/port'' \<mapsto> ''5432'', ''/token'' \<mapsto> ''s3cr3t''], None)"
    by (simp add: getParametersWithPrefix_def getParameter_def param_store_def store_all_def)
  from ssm_GetValues_fallback [OF app nope, of "[''/token'']"] g1 tok
  have r1: "ssm_GetValues param_store [''/app'', ''/nope'', ''/token''] =
       ([''/app/db/host'' \<mapsto> ''x'', ''/app/db/port'' \<mapsto> ''5432'', ''/token'' \<mapsto> ''s3cr3t''], None)"
    by simp
  from ssm_GetValues_fallback [OF app locked, of "[''/token'']"] g2
  have r2: "ssm_GetValues param_store [''/app'', ''/locked'', ''/token''] =
       ([''/app/db/host'' \<mapsto> ''x'', ''/app/db/port'' \<mapsto> ''5432''],
        Some (AwsError \<lparr>Code = ''AccessDeniedException'', Message = ''denied''\<rparr>))"
    by simp
  show ?thesis using app nope locked g1 r1 r2 by simp
qed

subsection \<open>The polling loop\<close>

lemma ssm_poll_NoMatch:
  "GetRecords k it = Inr out \<Longrightarrow> scan_records um keys zero_Event (fst out) = NoMatch \<Longrightarrow>
   ssm_poll (Suc fuel) k um keys it =
     (CallGetRecords it # Sleep (5 * Second) # fst (ssm_poll fuel k um keys (snd out)),
      snd (ssm_poll fuel k um keys (snd out)))"
  by (simp add: Let_def)

text \<open>Fuel only bounds the run: once the loop has ended, more fuel changes nothing.\<close>

lemma ssm_poll_more_fuel:
  "snd (ssm_poll fuel k um keys it) = Some r \<Longrightarrow>
   ssm_poll (Suc fuel) k um keys it = ssm_poll fuel k um keys it"
proof (induction fuel arbitrary: it r)
  case 0
  then show ?case by simp
next
  case (Suc fuel)
  show ?case
  proof (cases "GetRecords k it")
    case (Inl e)
    then show ?thesis by simp
  next
    case (Inr out)
    show ?thesis
    proof (cases "scan_records um keys zero_Event (fst out)")
      case NoMatch
      note step = ssm_poll_NoMatch [OF Inr NoMatch]
      from Suc.prems have "snd (ssm_poll fuel k um keys (snd out)) = Some r"
        by (simp only: step snd_conv)
      then have ih: "ssm_poll (Suc fuel) k um keys (snd out) = ssm_poll fuel k um keys (snd out)"
        by (rule Suc.IH)
      show ?thesis by (simp only: step ih)
    qed (simp_all add: Inr)
  qed
qed

lemma ssm_poll_first_fetch:
  "\<exists>tr. fst (ssm_poll (Suc fuel) k um keys it) = CallGetRecords it # tr"
  by (simp add: Let_def split: sum.splits scan.splits)

text \<open>On a stream where every fetch succeeds and no record matches, the loop never ends.\<close>

lemma quiet_never_returns:
  assumes quiet: "\<forall>it. \<exists>recs next. GetRecords k it = Inr (recs, next)
                     \<and> scan_records um keys zero_Event recs = NoMatch"
  shows "snd (ssm_poll fuel k um keys it) = None"
proof (induction fuel arbitrary: it)
  case 0
  show ?case by simp
next
  case (Suc fuel)
  from quiet obtain recs "next" where
    "GetRecords k it = Inr (recs, next)" "scan_records um keys zero_Event recs = NoMatch"
    by blast
  then show ?case using Suc.IH [of "next"] by (simp add: Let_def)
qed

lemma test_stream_run_latest:
  "ssm_WatchPrefix 2 test_stream name_of ''/app'' [''/app''] [] False =
  ([CallDescribeStream ''test'', CallGetShardIterator ''shardId-000'' ''test'' ''LATEST'',
    CallGetRecords (Some ''it0''), Sleep 5000000000, CallGetRecords (Some ''it1'')],
   Some (Inr (''it2'', None)))"
  by (simp add: ssm_WatchPrefix_def test_stream_def name_of_def ShardIteratorTypeLatest_def
    return_deref_def zero_Event_def HasPrefix_def Second_def numeral_2_eq_2)

lemma test_stream_run_resume:
  "ssm_WatchPrefix 2 test_stream name_of ''/app'' [''/app''] ''it0'' True =
  ([CallDescribeStream ''test'', Sleep 5000000000,
    CallGetRecords (Some ''it0''), Sleep 5000000000, CallGetRecords (Some ''it1'')],
   Some (Inr (''it2'', None)))"
  by (simp add: ssm_WatchPrefix_def test_stream_def name_of_def ShardIteratorTypeLatest_def
    return_deref_def zero_Event_def HasPrefix_def Second_def numeral_2_eq_2)

subsection \<open>The start of WatchPrefix\<close>

text \<open>
  C2, amended.  Let the stream have a first shard, resolved in both cases.  With an
  empty input cursor the call requests a LATEST iterator for that shard and, given
  one, fetches at it at once: the first three actions are the two requests and the
  fetch, with no sleep between them.  With a non-empty input cursor the call sleeps
  five seconds and then fetches at the input cursor itself.
\<close>

theorem ssm_WatchPrefix_start:
  assumes shards: "DescribeStream k ''test'' = Inr (shard # others)"
  shows "(waitIndex = [] \<and> GetShardIterator k shard ''test'' ''LATEST'' = Inr it \<longrightarrow>
            take 3 (fst (ssm_WatchPrefix (Suc fuel) k um prefix keys waitIndex stopChan)) =
              [CallDescribeStream ''test'', CallGetShardIterator shard ''test'' ''LATEST'',
               CallGetRecords (Some it)])
       \<and> (waitIndex \<noteq> [] \<longrightarrow>
            take 3 (fst (ssm_WatchPrefix (Suc fuel) k um prefix keys waitIndex stopChan)) =
              [CallDescribeStream ''test'', Sleep (5 * Second),
               CallGetRecords (Some waitIndex)])"
proof (intro conjI impI)
  assume h: "waitIndex = [] \<and> GetShardIterator k shard ''test'' ''LATEST'' = Inr it"
  obtain tr where "fst (ssm_poll (Suc fuel) k um keys (Some it)) = CallGetRecords (Some it) # tr"
    using ssm_poll_first_fetch by blast
  then show "take 3 (fst (ssm_WatchPrefix (Suc fuel) k um prefix keys waitIndex stopChan)) =
              [CallDescribeStream ''test'', CallGetShardIterator shard ''test'' ''LATEST'',
               CallGetRecords (Some it)]"
    using shards h
    by (simp add: ssm_WatchPrefix_def ShardIteratorTypeLatest_def Let_def
        del: ssm_poll.simps)
next
  assume h: "waitIndex \<noteq> []"
  obtain tr where
    "fst (ssm_poll (Suc fuel) k um keys (Some waitIndex)) = CallGetRecords (Some waitIndex) # tr"
    using ssm_poll_first_fetch by blast
  then show "take 3 (fst (ssm_WatchPrefix (Suc fuel) k um prefix keys waitIndex stopChan)) =
              [CallDescribeStream ''test'', Sleep (5 * Second),
               CallGetRecords (Some waitIndex)]"
    using shards h
    by (simp add: ssm_WatchPrefix_def Let_def del: ssm_poll.simps)
qed

text \<open>The theorem on \<open>test_stream\<close>, once with the empty cursor and once with it1.\<close>

theorem ssm_WatchPrefix_start_witness:
  "DescribeStream test_stream ''test'' = Inr [''shardId-000'']
   \<and> GetShardIterator test_stream ''shardId-000'' ''test'' ''LATEST'' = Inr ''it0''
   \<and> take 3 (fst (ssm_WatchPrefix 1 test_stream name_of ''/app'' [''/app''] [] False)) =
       [CallDescribeStream ''test'', CallGetShardIterator ''shardId-000'' ''test'' ''LATEST'',
        CallGetRecords (Some ''it0'')]
   \<and> take 3 (fst (ssm_WatchPrefix 1 test_stream name_of ''/app'' [''/app''] ''it1'' False)) =
       [CallDescribeStream ''test'', Sleep 5000000000, CallGetRecords (Some ''it1'')]"
proof -
  have d: "DescribeStream test_stream ''test'' = Inr [''shardId-000'']"
    by (simp add: test_stream_def)
  have g: "GetShardIterator test_stream ''shardId-000'' ''test'' ''LATEST'' = Inr ''it0''"
    by (simp add: test_stream_def)
  have ne: "''it1'' \<noteq> ([]::string)" by simp
  from ssm_WatchPrefix_start [OF d, of "[]" "''it0''" 0 name_of "''/app''" "[''/app'']" False] g
  have a: "take 3 (fst (ssm_WatchPrefix 1 test_stream name_of ''/app'' [''/app''] [] False)) =
       [CallDescribeStream ''test'', CallGetShardIterator ''shardId-000'' ''test'' ''LATEST'',
        CallGetRecords (Some ''it0'')]"
    by simp
  from ssm_WatchPrefix_start [OF d, of "''it1''" "''it0''" 0 name_of "''/app''" "[''/app'']" False] ne
  have b: "take 3 (fst (ssm_WatchPrefix 1 test_stream name_of ''/app'' [''/app''] ''it1'' False)) =
       [CallDescribeStream ''test'', Sleep 5000000000, CallGetRecords (Some ''it1'')]"
    by (simp add: Second_def)
  show ?thesis using d g a b by simp
qed

text \<open>
  C2 as stated fails for the empty cursor: on \<open>test_stream\<close> the fetch at it0 follows
  the iterator request directly, and the third action is not a sleep.
\<close>

theorem ssm_WatchPrefix_initial_delay_counterexample:
  "ssm_WatchPrefix 2 test_stream name_of ''/app'' [''/app''] [] False =
     ([CallDescribeStream ''test'', CallGetShardIterator ''shardId-000'' ''test'' ''LATEST'',
       CallGetRecords (Some ''it0''), Sleep 5000000000, CallGetRecords (Some ''it1'')],
      Some (Inr (''it2'', None)))
   \<and> take 3 (fst (ssm_WatchPrefix 2 test_stream name_of ''/app'' [''/app''] [] False)) \<noteq>
       [CallDescribeStream ''test'', CallGetShardIterator ''shardId-000'' ''test'' ''LATEST'',
        Sleep 5000000000]"
  by (simp add: test_stream_run_latest)

subsection \<open>The stop signal\<close>

text \<open>
  C9, amended.  The stop signal is never looked at: a call behaves the same whether
  the signal has fired or not, at iteration boundaries as much as during a fetch or a
  sleep.  A call returns only on a matching record or on an error; on a stream where
  every fetch succeeds without a matching record, a call whose stop signal has fired
  has not returned after any number of iterations.
\<close>

theorem ssm_WatchPrefix_ignores_stop:
  "ssm_WatchPrefix fuel k um prefix keys waitIndex stopChan =
     ssm_WatchPrefix fuel k um prefix keys waitIndex (\<not> stopChan)
   \<and> ((\<forall>it. \<exists>recs next. GetRecords k it = Inr (recs, next)
            \<and> scan_records um keys zero_Event recs = NoMatch)
        \<and> DescribeStream k ''test'' = Inr (shard # others)
        \<and> (waitIndex = [] \<longrightarrow> GetShardIterator k shard ''test'' ''LATEST'' = Inr it0)
       \<longrightarrow> snd (ssm_WatchPrefix fuel k um prefix keys waitIndex True) = None)"
proof (intro conjI impI)
  show "ssm_WatchPrefix fuel k um prefix keys waitIndex stopChan =
     ssm_WatchPrefix fuel k um prefix keys waitIndex (\<not> stopChan)"
    by (simp add: ssm_WatchPrefix_def)
next
  assume h: "(\<forall>it. \<exists>recs next. GetRecords k it = Inr (recs, next)
            \<and> scan_records um keys zero_Event recs = NoMatch)
        \<and> DescribeStream k ''test'' = Inr (shard # others)
        \<and> (waitIndex = [] \<longrightarrow> GetShardIterator k shard ''test'' ''LATEST'' = Inr it0)"
  then have q: "\<And>it. snd (ssm_poll fuel k um keys it) = None"
    using quiet_never_returns by blast
  from h show "snd (ssm_WatchPrefix fuel k um prefix keys waitIndex True) = None"
    by (simp add: ssm_WatchPrefix_def ShardIteratorTypeLatest_def Let_def q)
qed

lemma quiet_stream_quiet:
  "\<forall>it. \<exists>recs next. GetRecords quiet_stream it = Inr (recs, next)
      \<and> scan_records name_of [''/app''] zero_Event recs = NoMatch"
  by (simp add: quiet_stream_def name_of_def HasPrefix_def)

text \<open>
  The theorem on \<open>quiet_stream\<close> with the stop signal fired: seven iterations on, the
  call has not returned.
\<close>

theorem ssm_WatchPrefix_ignores_stop_witness:
  "DescribeStream quiet_stream ''test'' = Inr [''shardId-000'']
   \<and> GetRecords quiet_stream (Some ''it0'') = Inr ([''/other/key''], Some ''it0'')
   \<and> scan_records name_of [''/app''] zero_Event [''/other/key''] = NoMatch
   \<and> snd (ssm_WatchPrefix 7 quiet_stream name_of ''/app'' [''/app''] ''it0'' True) = None
   \<and> ssm_WatchPrefix 7 quiet_stream name_of ''/app'' [''/app''] ''it0'' True =
       ssm_WatchPrefix 7 quiet_stream name_of ''/app'' [''/app''] ''it0'' False"
proof -
  have d: "DescribeStream quiet_stream ''test'' = Inr [''shardId-000'']"
    by (simp add: quiet_stream_def)
  have g: "GetRecords quiet_stream (Some ''it0'') = Inr ([''/other/key''], Some ''it0'')"
    by (simp add: quiet_stream_def)
  have s: "scan_records name_of [''/app''] zero_Event [''/other/key''] = NoMatch"
    by (simp add: name_of_def HasPrefix_def)
  note t = ssm_WatchPrefix_ignores_stop
    [of 7 quiet_stream name_of "''/app''" "[''/app'']" "''it0''" True "''shardId-000''" "[]" "''it0''"]
  from t [THEN conjunct2] quiet_stream_quiet d
  have n: "snd (ssm_WatchPrefix 7 quiet_stream name_of ''/app'' [''/app''] ''it0'' True) = None"
    by simp
  from t [THEN conjunct1] have e: "ssm_WatchPrefix 7 quiet_stream name_of ''/app'' [''/app''] ''it0'' True =
       ssm_WatchPrefix 7 quiet_stream name_of ''/app'' [''/app''] ''it0'' False"
    by simp
  show ?thesis using d g s n e by simp
qed

text \<open>
  C9 as stated fails on \<open>test_stream\<close>: the stop signal has fired before the call and
  the first batch holds no match, yet past the boundary after the first iteration
  the call sleeps and fetches at it1, and returns only for the match found there.
\<close>

theorem ssm_WatchPrefix_stop_counterexample:
  "ssm_WatchPrefix 2 test_stream name_of ''/app'' [''/app''] ''it0'' True =
     ([CallDescribeStream ''test'', Sleep 5000000000,
       CallGetRecords (Some ''it0''), Sleep 5000000000, CallGetRecords (Some ''it1'')],
      Some (Inr (''it2'', None)))
   \<and> CallGetRecords (Some ''it1'')
       \<in> set (fst (ssm_WatchPrefix 2 test_stream name_of ''/app'' [''/app''] ''it0'' True))"
  by (simp add: test_stream_run_resume)

section \<open>Properties of the hierarchical backend\<close>

subsection \<open>Paths in a store\<close>


lemma split_slash_not_Nil [simp]: "split_slash p \<noteq> []"
  by (induction p) auto











lemma store_all_Nil [simp]: "store_all [] m = m"
  by (simp add: store_all_def)

lemma store_all_Cons [simp]: "store_all (e # es) m = store_all es (m(fst e \<mapsto> snd e))"
  by (simp add: store_all_def)

lemma store_all_single: "store_all [(p, d)] m = m(p \<mapsto> d)"
  by (simp add: store_all_def)

subsection \<open>The walk over a store at rest\<close>















subsection \<open>WatchPrefix\<close>

text \<open>Every response a watcher sends carries the empty cursor.\<close>

lemma watch_waitIndex: "r \<in> set (watch ge ce inputs) \<Longrightarrow> resp_waitIndex r = []"
proof -
  have "r \<in> set (watch_loop inputs) \<Longrightarrow> resp_waitIndex r = []"
    by (induction inputs rule: watch_loop.induct) (auto split: if_splits)
  moreover assume "r \<in> set (watch ge ce inputs)"
  ultimately show ?thesis by (auto simp: watch_def split: option.splits)
qed

text \<open>
  C1, amended.  After a successful snapshot: if the stop signal is the first case
  ready, the call returns the input cursor and nil; if a response relayed by a watcher
  is, the call returns the cursor of that response, which is empty whatever the input
  cursor was, together with the relayed error or nil.
\<close>

theorem zk_WatchPrefix_returns:
  assumes snapshot: "zk_GetValues fuel c [prefix] = Some (entries, None)"
  shows "zk_WatchPrefix fuel c prefix keys waitIndex StopChan = Some (waitIndex, None)
       \<and> (\<forall>r \<in> set (watch ge ce inputs).
            zk_WatchPrefix fuel c prefix keys waitIndex (RespChan r) = Some ([], resp_err r))"
  using snapshot by (auto simp: zk_WatchPrefix_def watch_waitIndex)

text \<open>
  The theorem on the store of the example with the input cursor 7, the response being
  the one a watcher sends for a change of its key's data.
\<close>

theorem zk_WatchPrefix_returns_witness:
  "zk_GetValues 2 (conn_of app_store) [''/app''] = Some ([''/app/db/host'' \<mapsto> ''x''], None)
   \<and> watch None None [KeyEvent data_changed] = [\<lparr>resp_waitIndex = [], resp_err = None\<rparr>]
   \<and> zk_WatchPrefix 2 (conn_of app_store) ''/app'' [''/app''] ''7'' StopChan = Some (''7'', None)
   \<and> zk_WatchPrefix 2 (conn_of app_store) ''/app'' [''/app''] ''7''
       (RespChan \<lparr>resp_waitIndex = [], resp_err = None\<rparr>) = Some ([], None)"
proof -
  have s: "zk_GetValues 2 (conn_of app_store) [''/app''] = Some ([''/app/db/host'' \<mapsto> ''x''], None)"
    by (simp add: zk_GetValues_def conn_of_def app_store_def lookup_path_def stat_of_def
      numeral_2_eq_2)
  have w: "watch None None [KeyEvent data_changed] = [\<lparr>resp_waitIndex = [], resp_err = None\<rparr>]"
    by (simp add: watch_def data_changed_def)
  note t = zk_WatchPrefix_returns [OF s, of "[''/app'']" "''7''" None None "[KeyEvent data_changed]"]
  show ?thesis using s w t by simp
qed

text \<open>
  C1 as stated fails on a relayed event: with the input cursor 7 the call returns the
  empty cursor, not 7.
\<close>

theorem zk_WatchPrefix_cursor_counterexample:
  "hd (watch None None [KeyEvent data_changed]) = \<lparr>resp_waitIndex = [], resp_err = None\<rparr>
   \<and> zk_WatchPrefix 2 (conn_of app_store) ''/app'' [''/app''] ''7''
       (RespChan (hd (watch None None [KeyEvent data_changed]))) = Some ([], None)
   \<and> zk_WatchPrefix 2 (conn_of app_store) ''/app'' [''/app''] ''7''
       (RespChan (hd (watch None None [KeyEvent data_changed]))) \<noteq> Some (''7'', None)"
  by (simp add: zk_WatchPrefix_def zk_GetValues_def conn_of_def app_store_def lookup_path_def
      stat_of_def numeral_2_eq_2 watch_def data_changed_def)


section \<open>What a failed GetValues returns\<close>

text \<open>A walk only adds or replaces entries.\<close>

lemma nodeWalk_dom:
  "nodeWalk fuel c p vars = Some (vars', e) \<Longrightarrow> dom vars \<subseteq> dom vars'"
  "nodeWalk_children fuel c p l vars = Some (vars', e) \<Longrightarrow> dom vars \<subseteq> dom vars'"
proof (induction fuel c p vars and fuel c p l vars arbitrary: vars' e and vars' e
       rule: nodeWalk_nodeWalk_children.induct)
  case (1 c prefix vars)
  then show ?case by simp
next
  case (2 fuel c prefix vars)
  then show ?case
    by (auto split: sum.splits prod.splits if_splits)
next
  case (3 fuel c prefix vars)
  then show ?case by simp
next
  case (4 fuel c prefix key l vars)
  show ?case
  proof (cases "Exists c (prefix @ ''/'' @ key)")
    case (Inl x)
    with "4.prems" show ?thesis by simp
  next
    case (Inr fs)
    obtain found stat where fs: "fs = (found, stat)" by (cases fs)
    show ?thesis
    proof (cases "NumChildren stat = 0")
      case True
      show ?thesis
      proof (cases "Get c (prefix @ ''/'' @ key)")
        case (Inl x)
        with "4.prems" Inr fs True show ?thesis by simp
      next
        case (Inr b)
        with "4.prems" \<open>Exists c (prefix @ ''/'' @ key) = Inr fs\<close> fs True
        have rec: "nodeWalk_children fuel c prefix l (vars(prefix @ ''/'' @ key \<mapsto> b)) = Some (vars', e)"
          by simp
        have "dom (vars(prefix @ ''/'' @ key \<mapsto> b)) \<subseteq> dom vars'"
          by (rule "4.IH"(1) [OF \<open>Exists c (prefix @ ''/'' @ key) = Inr fs\<close> fs [symmetric] True Inr rec])
        then show ?thesis by auto
      qed
    next
      case False
      from "4.prems" Inr fs False obtain v1 e1 where
        w: "nodeWalk fuel c (prefix @ ''/'' @ key) vars = Some (v1, e1)"
        and r: "nodeWalk_children fuel c prefix l v1 = Some (vars', e)"
        by (auto split: option.splits)
      have "dom vars \<subseteq> dom v1"
        using "4.IH"(2) [OF Inr fs [symmetric] False w] .
      moreover have "dom v1 \<subseteq> dom vars'"
        using "4.IH"(3) [OF Inr fs [symmetric] False w refl r] .
      ultimately show ?thesis by simp
    qed
  qed
qed

lemma zk_GetValues_from_append:
  "zk_GetValues_from fuel c (ks1 @ ks2) vars =
     (case zk_GetValues_from fuel c ks1 vars of
        None \<Rightarrow> None
      | Some (m, None) \<Rightarrow> zk_GetValues_from fuel c ks2 m
      | Some (m, Some e) \<Rightarrow> Some (m, Some e))"
  by (induction ks1 arbitrary: vars)
     (auto split: sum.splits option.splits prod.splits split del: if_split)

lemma zk_GetValues_single_dom:
  assumes "zk_GetValues_from fuel c [v] vars = Some (m, e)"
  shows "dom vars \<subseteq> dom m"
proof (cases "Exists c (Replace_wildcard v)")
  case (Inl x)
  with assms show ?thesis by simp
next
  case (Inr found)
  define p where "p = (if Replace_wildcard v = ''/'' then [] else Replace_wildcard v)"
  from assms Inr obtain e1 where "nodeWalk fuel c p vars = Some (m, e1)"
    unfolding p_def by (auto split: option.splits split del: if_split)
  then show ?thesis by (rule nodeWalk_dom(1))
qed

lemma zk_GetValues_error_prefix:
  "zk_GetValues_from fuel c keys vars = Some (m, Some e) \<Longrightarrow>
   \<exists>ks1 k ks2 m1. keys = ks1 @ k # ks2
      \<and> zk_GetValues_from fuel c ks1 vars = Some (m1, None)
      \<and> zk_GetValues_from fuel c [k] m1 = Some (m, Some e)
      \<and> dom m1 \<subseteq> dom m"
proof (induction keys arbitrary: vars)
  case Nil
  then show ?case by simp
next
  case (Cons v keys)
  note app = zk_GetValues_from_append [of fuel c "[v]" _ vars, simplified append_Cons append_Nil]
  show ?case
  proof (cases "zk_GetValues_from fuel c [v] vars")
    case None
    with Cons.prems app [of keys] show ?thesis by (simp only: option.case) simp
  next
    case (Some r)
    obtain m' e' where r: "r = (m', e')" by (cases r)
    note one = Some [unfolded r]
    show ?thesis
    proof (cases e')
      case None
      have step: "zk_GetValues_from fuel c (v # ks) vars = zk_GetValues_from fuel c ks m'" for ks
        using app [of ks] by (simp only: one None option.case prod.case)
      with Cons.prems have "zk_GetValues_from fuel c keys m' = Some (m, Some e)" by (simp only:)
      from Cons.IH [OF this] obtain ks1 k ks2 m1 where
        k: "keys = ks1 @ k # ks2" "zk_GetValues_from fuel c ks1 m' = Some (m1, None)"
           "zk_GetValues_from fuel c [k] m1 = Some (m, Some e)" "dom m1 \<subseteq> dom m"
        by blast
      have l: "v # keys = (v # ks1) @ k # ks2" using k(1) by simp
      have "zk_GetValues_from fuel c (v # ks1) vars = Some (m1, None)"
        using step [of ks1] k(2) by (simp only:)
      with l k(3,4) show ?thesis by blast
    next
      case (Some e1)
      have "zk_GetValues_from fuel c (v # keys) vars = Some (m', Some e1)"
        using app [of keys] by (simp only: one Some option.case prod.case)
      with Cons.prems have eq: "m' = m" "e1 = e" by simp_all
      have single: "zk_GetValues_from fuel c [v] vars = Some (m, Some e)"
        using one by (simp only: Some eq)
      have d: "dom vars \<subseteq> dom m" using single by (rule zk_GetValues_single_dom)
      have l: "v # keys = [] @ v # keys" by simp
      have z: "zk_GetValues_from fuel c [] vars = Some (vars, None)" by simp
      from l z single d show ?thesis by blast
    qed
  qed
qed

lemma ssm_GetValues_error_prefix:
  "ssm_GetValues_from c keys vars = (m, Some e) \<Longrightarrow>
   \<exists>ks1 k ks2. keys = ks1 @ k # ks2
      \<and> ssm_GetValues_from c ks1 vars = (m, None)
      \<and> ssm_GetValues_from c [k] m = (m, Some e)"
proof (induction keys arbitrary: vars)
  case Nil
  then show ?case by simp
next
  case (Cons key keys)
  obtain m' e' where one: "ssm_GetValues_from c [key] vars = (m', e')"
    by (cases "ssm_GetValues_from c [key] vars")
  have split: "ssm_GetValues_from c (key # keys) vars =
      (case e' of None \<Rightarrow> ssm_GetValues_from c keys m' | Some x \<Rightarrow> (m', Some x))"
    using ssm_GetValues_from_append [of c "[key]" keys vars] one by simp
  show ?case
  proof (cases e')
    case None
    with split Cons.prems have "ssm_GetValues_from c keys m' = (m, Some e)" by simp
    from Cons.IH [OF this] obtain ks1 k ks2 where
      k: "keys = ks1 @ k # ks2" "ssm_GetValues_from c ks1 m' = (m, None)"
         "ssm_GetValues_from c [k] m = (m, Some e)"
      by blast
    have "ssm_GetValues_from c (key # ks1) vars = ssm_GetValues_from c ks1 m'"
      using ssm_GetValues_from_append [of c "[key]" ks1 vars] one None by simp
    with k have "key # keys = (key # ks1) @ k # ks2
        \<and> ssm_GetValues_from c (key # ks1) vars = (m, None)
        \<and> ssm_GetValues_from c [k] m = (m, Some e)"
      by simp
    then show ?thesis by blast
  next
    case (Some x)
    with split Cons.prems have eq: "m' = m" "x = e" by simp_all
    have "m' = vars" using one Some
      by (auto simp: getParametersWithPrefix_def split: prod.splits option.splits if_splits)
    with eq have vm: "vars = m" by simp
    from one have "ssm_GetValues_from c [key] vars = (m, Some e)" by (simp only: Some eq)
    then have single: "ssm_GetValues_from c [key] m = (m, Some e)" by (simp only: vm)
    have z: "ssm_GetValues_from c [] vars = (m, None)" by (simp add: vm)
    have l: "key # keys = [] @ key # keys" by simp
    from l z single show ?thesis by blast
  qed
qed

lemma rancher_GetValues_error_prefix:
  "rancher_GetValues_from c um fmt n keys st = Inr (st', Some e) \<Longrightarrow>
   \<exists>ks1 k ks2. keys = ks1 @ k # ks2
      \<and> rancher_GetValues_from c um fmt n ks1 st = Inr (st', None)
      \<and> rancher_GetValues_from c um fmt (n + length ks1) [k] st' = Inr (st', Some e)"
proof (induction keys arbitrary: n st)
  case Nil
  then show ?case by simp
next
  case (Cons key keys)
  show ?case
  proof (cases "rancher_GetValues_from c um fmt n [key] st")
    case (Inl p)
    with Cons.prems show ?thesis by (auto split: sum.splits)
  next
    case (Inr r)
    obtain s1 e1 where r: "r = (s1, e1)" by (cases r)
    show ?thesis
    proof (cases e1)
      case None
      with Inr r have step: "\<And>ks. rancher_GetValues_from c um fmt n (key # ks) st =
          rancher_GetValues_from c um fmt (n + 1) ks s1"
        by (auto split: sum.splits)
      with Cons.prems have "rancher_GetValues_from c um fmt (n + 1) keys s1 = Inr (st', Some e)"
        by simp
      from Cons.IH [OF this] obtain ks1 k ks2 where
        k: "keys = ks1 @ k # ks2" "rancher_GetValues_from c um fmt (n + 1) ks1 s1 = Inr (st', None)"
           "rancher_GetValues_from c um fmt (n + 1 + length ks1) [k] st' = Inr (st', Some e)"
        by blast
      with step [of ks1] have "key # keys = (key # ks1) @ k # ks2
          \<and> rancher_GetValues_from c um fmt n (key # ks1) st = Inr (st', None)
          \<and> rancher_GetValues_from c um fmt (n + length (key # ks1)) [k] st' = Inr (st', Some e)"
        by (simp add: add.commute add.left_commute)
      then show ?thesis by blast
    next
      case (Some e1')
      with Inr r have whole: "rancher_GetValues_from c um fmt n (key # keys) st = Inr (s1, Some e1')"
        and same: "s1 = st"
        by (auto split: sum.splits)
      with Cons.prems have eq: "s1 = st'" "e1' = e" by simp_all
      with Inr r Some same have "key # keys = [] @ key # keys
          \<and> rancher_GetValues_from c um fmt n [] st = Inr (st', None)
          \<and> rancher_GetValues_from c um fmt (n + length ([]::string list)) [key] st' = Inr (st', Some e)"
        by simp
      then show ?thesis by blast
    qed
  qed
qed

text \<open>
  C10: whenever \<open>GetValues\<close> of any of the three backends returns an error, the keys
  split into the keys before the failing one, the failing key and the rest, and the
  map returned is the map accumulated over the keys before the failing one, as a
  successful call on just those keys leaves it.  The failing key adds nothing to it
  in the parameter-store and metadata backends; in the hierarchical backend it adds
  what its walk wrote before the failing node, and no earlier key is lost.
\<close>

theorem GetValues_partial_on_error:
  "(zk_GetValues_from fuel zc keys vars = Some (m, Some e) \<longrightarrow>
      (\<exists>ks1 k ks2 m1. keys = ks1 @ k # ks2
         \<and> zk_GetValues_from fuel zc ks1 vars = Some (m1, None)
         \<and> zk_GetValues_from fuel zc [k] m1 = Some (m, Some e)
         \<and> dom m1 \<subseteq> dom m))
   \<and> (ssm_GetValues_from sc keys vars = (m, Some e) \<longrightarrow>
      (\<exists>ks1 k ks2. keys = ks1 @ k # ks2
         \<and> ssm_GetValues_from sc ks1 vars = (m, None)
         \<and> ssm_GetValues_from sc [k] m = (m, Some e)))
   \<and> (rancher_GetValues_from rc um fmt n keys st = Inr (st', Some e) \<longrightarrow>
      (\<exists>ks1 k ks2. keys = ks1 @ k # ks2
         \<and> rancher_GetValues_from rc um fmt n ks1 st = Inr (st', None)
         \<and> rancher_GetValues_from rc um fmt (n + length ks1) [k] st' = Inr (st', Some e)))"
  using zk_GetValues_error_prefix [of fuel zc keys vars m e]
    ssm_GetValues_error_prefix [of sc keys vars m e]
    rancher_GetValues_error_prefix [of rc um fmt n keys st st' e]
  by blast


text \<open>
  The theorem on one failing call per backend, each returning a non-empty map next to
  its error: the store of the example asked for a missing second prefix, the
  parameter store asked for the unreadable /locked after /app, and the metadata
  endpoint that refuses the second request.
\<close>

theorem GetValues_partial_on_error_witness:
  "zk_GetValues_from 4 (conn_of app_store) [''/app/*'', ''/nope/*'', ''/app''] Map.empty =
     Some ([''/app/db/host'' \<mapsto> ''x''], Some ErrNoNode)
   \<and> (\<exists>ks1 k ks2 m1. [''/app/*'', ''/nope/*'', ''/app''] = ks1 @ k # ks2
         \<and> zk_GetValues_from 4 (conn_of app_store) ks1 Map.empty = Some (m1, None)
         \<and> zk_GetValues_from 4 (conn_of app_store) [k] m1 =
             Some ([''/app/db/host'' \<mapsto> ''x''], Some ErrNoNode)
         \<and> dom m1 \<subseteq> dom [''/app/db/host'' \<mapsto> ''x''])
   \<and> ssm_GetValues_from param_store [''/app'', ''/locked'', ''/token''] Map.empty =
       ([''/app/db/host'' \<mapsto> ''x'', ''/app/db/port'' \<mapsto> ''5432''],
        Some (AwsError \<lparr>Code = ''AccessDeniedException'', Message = ''denied''\<rparr>))
   \<and> (\<exists>ks1 k ks2. [''/app'', ''/locked'', ''/token''] = ks1 @ k # ks2
         \<and> ssm_GetValues_from param_store ks1 Map.empty =
             ([''/app/db/host'' \<mapsto> ''x'', ''/app/db/port'' \<mapsto> ''5432''], None)
         \<and> ssm_GetValues_from param_store [k]
               [''/app/db/host'' \<mapsto> ''x'', ''/app/db/port'' \<mapsto> ''5432''] =
             ([''/app/db/host'' \<mapsto> ''x'', ''/app/db/port'' \<mapsto> ''5432''],
              Some (AwsError \<lparr>Code = ''AccessDeniedException'', Message = ''denied''\<rparr>)))
   \<and> rancher_GetValues_from half_endpoint decode_bool Itoa 0 [''/a'', ''/b''] (Map.empty, []) =
       Inr (([''/a'' \<mapsto> ''true''], []), Some (TransportError ''connection reset''))
   \<and> (\<exists>ks1 k ks2. [''/a'', ''/b''] = ks1 @ k # ks2
         \<and> rancher_GetValues_from half_endpoint decode_bool Itoa 0 ks1 (Map.empty, []) =
             Inr (([''/a'' \<mapsto> ''true''], []), None)
         \<and> rancher_GetValues_from half_endpoint decode_bool Itoa (0 + length ks1) [k]
               ([''/a'' \<mapsto> ''true''], []) =
             Inr (([''/a'' \<mapsto> ''true''], []), Some (TransportError ''connection reset'')))"
proof -
  have z: "zk_GetValues_from 4 (conn_of app_store) [''/app/*'', ''/nope/*'', ''/app''] Map.empty =
     Some ([''/app/db/host'' \<mapsto> ''x''], Some ErrNoNode)"
    by (simp add: conn_of_def app_store_def lookup_path_def stat_of_def eval_nat_numeral)
  have s: "ssm_GetValues_from param_store [''/app'', ''/locked'', ''/token''] Map.empty =
       ([''/app/db/host'' \<mapsto> ''x'', ''/app/db/port'' \<mapsto> ''5432''],
        Some (AwsError \<lparr>Code = ''AccessDeniedException'', Message = ''denied''\<rparr>))"
    by (simp add: getParametersWithPrefix_def getParameter_def param_store_def store_all_def
        ErrCodeParameterNotFound_def)
  have r: "rancher_GetValues_from half_endpoint decode_bool Itoa 0 [''/a'', ''/b''] (Map.empty, []) =
       Inr (([''/a'' \<mapsto> ''true''], []), Some (TransportError ''connection reset''))"
    by (simp add: makeMetaDataRequest_def half_endpoint_def decode_bool_def FormatBool_def)
  note t = GetValues_partial_on_error
    [of 4 "conn_of app_store" "[''/app/*'', ''/nope/*'', ''/app'']" Map.empty
        "[''/app/db/host'' \<mapsto> ''x'']" ErrNoNode]
  note u = GetValues_partial_on_error
    [of _ _ "[''/app'', ''/locked'', ''/token'']" Map.empty
        "[''/app/db/host'' \<mapsto> ''x'', ''/app/db/port'' \<mapsto> ''5432'']"
        "AwsError \<lparr>Code = ''AccessDeniedException'', Message = ''denied''\<rparr>" param_store]
  note v = GetValues_partial_on_error
    [of _ _ "[''/a'', ''/b'']" _ _ "TransportError ''connection reset''" _
        half_endpoint decode_bool Itoa 0 "(Map.empty, [])" "([''/a'' \<mapsto> ''true''], [])"]
  note z' = t [THEN conjunct1, THEN mp, OF z]
  note s' = u [THEN conjunct2, THEN conjunct1, THEN mp, OF s]
  note r' = v [THEN conjunct2, THEN conjunct2, THEN mp, OF r]
  show ?thesis by (intro conjI) (rule z z' s s' r r')+
qed

end
